theory Spec2Isabelle
  imports Complex_Main "HOL-Library.Multiset" "HOL-Library.Word"
begin

section \<open>Data model\<close>

text \<open>
  The module \<^verbatim>\<open>src/lib/colorUtils.ts\<close> works on JavaScript numbers. The channels of a
  sample are bytes read from the canvas; the channels of a centroid are quotients of a
  sum of such bytes by a cluster size. Numbers are modelled as \<^typ>\<open>real\<close>: sums,
  differences, squares, comparisons and \<^verbatim>\<open>Math.round\<close> are then exactly those of the
  source on every finite number, and the quotient and the square root are the exact ones
  rather than their IEEE roundings. The palette size and the iteration cap are natural
  numbers: the only call of \<^verbatim>\<open>extractColors\<close> passes 6, and \<^verbatim>\<open>kMeans\<close> is only called
  with its default cap.
\<close>

record RGBColor =
  r :: real
  g :: real
  b :: real

type_synonym HexColor = string

type_synonym byte = "8 word"

datatype error =
  TypeError      \<comment> \<open>a property read or method call on \<^verbatim>\<open>undefined\<close>\<close>
| SparseWrite    \<comment> \<open>an array write beyond the end, which would leave holes\<close>

section \<open>rgbToHex\<close>

definition hexDigit :: "nat \<Rightarrow> char" where
  "hexDigit d = ''0123456789abcdef'' ! d"

text \<open>\<^verbatim>\<open>Number.prototype.toString(16)\<close> on an integer: no leading zeros, a minus sign
  for negative values.\<close>

fun toString16_nat :: "nat \<Rightarrow> string" where
  "toString16_nat n =
     (if n < 16 then [hexDigit n]
      else toString16_nat (n div 16) @ [hexDigit (n mod 16)])"

declare toString16_nat.simps [simp del]

definition toString16 :: "int \<Rightarrow> string" where
  "toString16 n =
     (if n < 0 then CHR ''-'' # toString16_nat (nat (- n)) else toString16_nat (nat n))"

text \<open>\<^verbatim>\<open>Math.round\<close>: the nearest integer, a tie going to the larger one.\<close>

definition Math_round :: "real \<Rightarrow> int" where
  "Math_round x = \<lfloor>x + 1 / 2\<rfloor>"

text \<open>\<^verbatim>\<open>String.prototype.toUpperCase\<close> on the ASCII strings that occur here: the letters
  \<open>a\<close> to \<open>z\<close> go to \<open>A\<close> to \<open>Z\<close>, every other character stays.\<close>

definition toUpperCase_char :: "char \<Rightarrow> char" where
  "toUpperCase_char c =
     (let n = (of_char c :: nat)
      in if 97 \<le> n \<and> n \<le> 122 then char_of (n - 32) else c)"

definition toUpperCase :: "string \<Rightarrow> string" where
  "toUpperCase s = map toUpperCase_char s"

definition toHex :: "real \<Rightarrow> string" where
  "toHex v =
     (let hex = toString16 (Math_round v)
      in if length hex = 1 then CHR ''0'' # hex else hex)"

definition rgbToHex :: "RGBColor \<Rightarrow> HexColor" where
  "rgbToHex rgb = toUpperCase (''#'' @ toHex (r rgb) @ toHex (g rgb) @ toHex (b rgb))"

section \<open>kMeans\<close>

text \<open>The local variables of \<^verbatim>\<open>kMeans\<close> that live across iterations.\<close>

record kstate =
  centroids :: "RGBColor list"
  previousCentroids :: "RGBColor list"
  clusters :: "RGBColor list list"
  iterations :: nat

definition hasConverged :: "RGBColor list \<Rightarrow> RGBColor list \<Rightarrow> bool" where
  "hasConverged previous current =
     (if length previous \<noteq> length current then False
      else list_all
             (\<lambda>index.
                let centroid = current ! index; prev = previous ! index
                in \<bar>r centroid - r prev\<bar> < 1 \<and>
                   \<bar>g centroid - g prev\<bar> < 1 \<and>
                   \<bar>b centroid - b prev\<bar> < 1)
             [0..<length current])"

definition distance :: "RGBColor \<Rightarrow> RGBColor \<Rightarrow> real" where
  "distance pixel c = sqrt ((r pixel - r c)^2 + (g pixel - g c)^2 + (b pixel - b c)^2)"

text \<open>\<^verbatim>\<open>minDistance\<close> starts at \<^verbatim>\<open>Infinity\<close>, here \<^term>\<open>None\<close>.\<close>

definition below :: "real \<Rightarrow> real option \<Rightarrow> bool" where
  "below d minDistance = (case minDistance of None \<Rightarrow> True | Some m \<Rightarrow> d < m)"

text \<open>The inner \<^verbatim>\<open>for\<close> loop over the centroid indices: the index of the first
  centroid at minimal distance, and 0 when there is no centroid.\<close>

definition closest :: "RGBColor list \<Rightarrow> RGBColor \<Rightarrow> nat" where
  "closest cs pixel =
     snd (foldl
            (\<lambda>(minDistance, clusterIndex) i.
               let d = distance pixel (cs ! i)
               in if below d minDistance then (Some d, i) else (minDistance, clusterIndex))
            (None, 0) [0..<length cs])"

text \<open>The square root is increasing, so the scan can be run on the squared distances;
  this is the equation that evaluates \<^const>\<open>closest\<close>.\<close>

definition distance2 :: "RGBColor \<Rightarrow> RGBColor \<Rightarrow> real" where
  "distance2 pixel c = (r pixel - r c)^2 + (g pixel - g c)^2 + (b pixel - b c)^2"

lemma distance2_nonneg: "0 \<le> distance2 pixel c"
  by (simp add: distance2_def)

lemma closest_scan_sqrt:
  "(case m of None \<Rightarrow> True | Some x \<Rightarrow> 0 \<le> x) \<Longrightarrow>
   snd (foldl
          (\<lambda>(minDistance, clusterIndex) i.
             let d = distance pixel (cs ! i)
             in if below d minDistance then (Some d, i) else (minDistance, clusterIndex))
          (map_option sqrt m, ci) js)
   = snd (foldl
          (\<lambda>(minDistance, clusterIndex) i.
             let d = distance2 pixel (cs ! i)
             in if below d minDistance then (Some d, i) else (minDistance, clusterIndex))
          (m, ci) js)"
proof (induction js arbitrary: m ci)
  case Nil
  show ?case by simp
next
  case (Cons j js)
  have d: "distance pixel (cs ! j) = sqrt (distance2 pixel (cs ! j))"
    by (simp add: distance_def distance2_def)
  have same: "below (distance pixel (cs ! j)) (map_option sqrt m)
                = below (distance2 pixel (cs ! j)) m"
    using Cons.prems by (cases m) (simp_all add: below_def d)
  show ?case
  proof (cases "below (distance2 pixel (cs ! j)) m")
    case True
    have "snd (foldl
          (\<lambda>(minDistance, clusterIndex) i.
             let d = distance pixel (cs ! i)
             in if below d minDistance then (Some d, i) else (minDistance, clusterIndex))
          (map_option sqrt (Some (distance2 pixel (cs ! j))), j) js)
      = snd (foldl
          (\<lambda>(minDistance, clusterIndex) i.
             let d = distance2 pixel (cs ! i)
             in if below d minDistance then (Some d, i) else (minDistance, clusterIndex))
          (Some (distance2 pixel (cs ! j)), j) js)"
      by (rule Cons.IH) (simp add: distance2_nonneg)
    with True same show ?thesis by (simp add: d)
  next
    case False
    with same Cons.IH [OF Cons.prems, of ci] show ?thesis by simp
  qed
qed

lemma closest_code [code]:
  "closest cs pixel =
     snd (foldl
            (\<lambda>(minDistance, clusterIndex) i.
               let d = distance2 pixel (cs ! i)
               in if below d minDistance then (Some d, i) else (minDistance, clusterIndex))
            (None, 0) [0..<length cs])"
  unfolding closest_def using closest_scan_sqrt [of None pixel cs 0] by simp

text \<open>The loop over the pixels. \<^verbatim>\<open>clusters[clusterIndex].push(pixel)\<close> raises a
  TypeError when \<^verbatim>\<open>clusters[clusterIndex]\<close> is \<^verbatim>\<open>undefined\<close>.\<close>

fun assignPixels ::
  "RGBColor list \<Rightarrow> RGBColor list \<Rightarrow> RGBColor list list \<Rightarrow> error + RGBColor list list" where
  "assignPixels cs [] cl = Inr cl"
| "assignPixels cs (pixel # rest) cl =
     (let clusterIndex = closest cs pixel
      in if clusterIndex < length cl
         then assignPixels cs rest (cl[clusterIndex := cl ! clusterIndex @ [pixel]])
         else Inl TypeError)"

definition sumColors :: "RGBColor list \<Rightarrow> RGBColor" where
  "sumColors cluster =
     foldl (\<lambda>acc pixel. \<lparr>r = r acc + r pixel, g = g acc + g pixel, b = b acc + b pixel\<rparr>)
       \<lparr>r = 0, g = 0, b = 0\<rparr> cluster"

definition meanColor :: "RGBColor list \<Rightarrow> RGBColor" where
  "meanColor cluster =
     (let s = sumColors cluster
      in \<lparr>r = r s / real (length cluster),
          g = g s / real (length cluster),
          b = b s / real (length cluster)\<rparr>)"

text \<open>\<^verbatim>\<open>centroids[i] = v\<close>: an update inside the array, an append at its end. A write
  further out would leave holes, which a list does not have; the model stops there.\<close>

definition array_set :: "'a list \<Rightarrow> nat \<Rightarrow> 'a \<Rightarrow> error + 'a list" where
  "array_set xs i v =
     (if i < length xs then Inr (xs[i := v])
      else if i = length xs then Inr (xs @ [v])
      else Inl SparseWrite)"

text \<open>The loop \<^verbatim>\<open>for (let i = 0; i < k; i++)\<close> that recomputes the centroids, over the
  indices still to visit. \<^verbatim>\<open>clusters\<close> has length \<^verbatim>\<open>k\<close>; reading the length of a
  missing cluster would raise.\<close>

fun updateCentroids ::
  "nat list \<Rightarrow> RGBColor list list \<Rightarrow> RGBColor list \<Rightarrow> error + RGBColor list" where
  "updateCentroids [] cl cs = Inr cs"
| "updateCentroids (i # is) cl cs =
     (if \<not> i < length cl then Inl TypeError
      else let cluster = cl ! i
           in if length cluster = 0 then updateCentroids is cl cs
              else case array_set cs i (meanColor cluster) of
                     Inl e \<Rightarrow> Inl e
                   | Inr cs' \<Rightarrow> updateCentroids is cl cs')"

text \<open>One execution of the body of the \<^verbatim>\<open>while\<close> loop.\<close>

definition kMeans_iteration :: "RGBColor list \<Rightarrow> nat \<Rightarrow> kstate \<Rightarrow> error + kstate" where
  "kMeans_iteration pixels k st =
     (case assignPixels (centroids st) pixels (replicate k []) of
        Inl e \<Rightarrow> Inl e
      | Inr cl \<Rightarrow>
          (case updateCentroids [0..<k] cl (centroids st) of
             Inl e \<Rightarrow> Inl e
           | Inr cs \<Rightarrow>
               Inr \<lparr>centroids = cs, previousCentroids = centroids st,
                    clusters = cl, iterations = iterations st + 1\<rparr>))"

lemma kMeans_iteration_iterations:
  "kMeans_iteration pixels k st = Inr st' \<Longrightarrow> iterations st' = iterations st + 1"
  by (auto simp: kMeans_iteration_def split: sum.splits)

text \<open>The state after \<open>n\<close> executions of the loop body, started in \<open>st\<close>.\<close>

fun kMeans_iterate :: "RGBColor list \<Rightarrow> nat \<Rightarrow> nat \<Rightarrow> kstate \<Rightarrow> error + kstate" where
  "kMeans_iterate pixels k 0 st = Inr st"
| "kMeans_iterate pixels k (Suc n) st =
     (case kMeans_iterate pixels k n st of
        Inl e \<Rightarrow> Inl e
      | Inr s \<Rightarrow> kMeans_iteration pixels k s)"

function kMeans_loop :: "RGBColor list \<Rightarrow> nat \<Rightarrow> nat \<Rightarrow> kstate \<Rightarrow> error + kstate" where
  "kMeans_loop pixels k maxIterations st =
     (if iterations st < maxIterations
         \<and> \<not> hasConverged (previousCentroids st) (centroids st)
      then case kMeans_iteration pixels k st of
             Inl e \<Rightarrow> Inl e
           | Inr st' \<Rightarrow> kMeans_loop pixels k maxIterations st'
      else Inr st)"
  by pat_completeness auto
termination
  by (relation "measure (\<lambda>(pixels, k, maxIterations, st). maxIterations - iterations st)")
     (auto dest: kMeans_iteration_iterations)

declare kMeans_loop.simps [simp del]

text \<open>\<^verbatim>\<open>pixels.sort(() => 0.5 - Math.random())\<close> reorders \<^verbatim>\<open>pixels\<close> in place; the
  order it leaves is the parameter \<open>shuffle\<close>. The first \<open>k\<close> elements
  (\<^verbatim>\<open>slice(0, k)\<close>) are the initial centroids, and the loop then runs over the
  reordered array.\<close>

definition init_state :: "RGBColor list \<Rightarrow> nat \<Rightarrow> kstate" where
  "init_state shuffled k =
     \<lparr>centroids = take k shuffled, previousCentroids = [], clusters = [], iterations = 0\<rparr>"

definition kMeans_run ::
  "(RGBColor list \<Rightarrow> RGBColor list) \<Rightarrow> RGBColor list \<Rightarrow> nat \<Rightarrow> nat \<Rightarrow> error + kstate" where
  "kMeans_run shuffle pixels k maxIterations =
     (let shuffled = shuffle pixels
      in kMeans_loop shuffled k maxIterations (init_state shuffled k))"

definition kMeans ::
  "(RGBColor list \<Rightarrow> RGBColor list) \<Rightarrow> RGBColor list \<Rightarrow> nat \<Rightarrow> nat
     \<Rightarrow> error + RGBColor list" where
  "kMeans shuffle pixels k maxIterations =
     (case kMeans_run shuffle pixels k maxIterations of
        Inl e \<Rightarrow> Inl e
      | Inr st \<Rightarrow> Inr (centroids st))"

section \<open>extractColors\<close>

definition decDigit :: "nat \<Rightarrow> char" where
  "decDigit d = ''0123456789'' ! d"

fun toString10 :: "nat \<Rightarrow> string" where
  "toString10 n =
     (if n < 10 then [decDigit n]
      else toString10 (n div 10) @ [decDigit (n mod 10)])"

declare toString10.simps [simp del]

text \<open>The template string \<^verbatim>\<open>`${r},${g},${b}`\<close>.\<close>

definition pixelKey :: "byte \<Rightarrow> byte \<Rightarrow> byte \<Rightarrow> string" where
  "pixelKey cr cg cb =
     toString10 (unat cr) @ '','' @ toString10 (unat cg) @ '','' @ toString10 (unat cb)"

definition toRGB :: "byte \<Rightarrow> byte \<Rightarrow> byte \<Rightarrow> RGBColor" where
  "toRGB cr cg cb = \<lparr>r = real (unat cr), g = real (unat cg), b = real (unat cb)\<rparr>"

text \<open>The loop over \<^verbatim>\<open>imageData.data\<close>, four bytes a pixel. The buffer of an
  \<^verbatim>\<open>ImageData\<close> has length \<open>4 * width * height\<close>, so no group is ever short.\<close>

fun samplePixels ::
  "byte list \<Rightarrow> RGBColor list \<Rightarrow> string set \<Rightarrow> RGBColor list" where
  "samplePixels (cr # cg # cb # a # rest) pixels pixelSet =
     (if a < 255 then samplePixels rest pixels pixelSet
      else let key = pixelKey cr cg cb
           in if key \<notin> pixelSet
              then samplePixels rest (pixels @ [toRGB cr cg cb]) (insert key pixelSet)
              else samplePixels rest pixels pixelSet)"
| "samplePixels _ pixels pixelSet = pixels"

text \<open>The part of \<^verbatim>\<open>extractColors\<close> from the pixel buffer on; \<^verbatim>\<open>kMeans\<close> is called
  with its default iteration cap.\<close>

definition extractColors ::
  "(RGBColor list \<Rightarrow> RGBColor list) \<Rightarrow> byte list \<Rightarrow> nat \<Rightarrow> error + HexColor list" where
  "extractColors shuffle data colorCount =
     (let pixels = samplePixels data [] {}
      in if length pixels \<le> colorCount then Inr (map rgbToHex pixels)
         else case kMeans shuffle pixels colorCount 100 of
                Inl e \<Rightarrow> Inl e
              | Inr dominantColors \<Rightarrow> Inr (map rgbToHex dominantColors))"

section \<open>Reference notions of the specification\<close>

text \<open>The specification's output format: a channel as two upper-case hexadecimal
  digits, the high one first.\<close>

definition spec_hexByte :: "nat \<Rightarrow> string" where
  "spec_hexByte n = [''0123456789ABCDEF'' ! (n div 16), ''0123456789ABCDEF'' ! (n mod 16)]"

text \<open>Reading a \<open>#RRGGBB\<close> string back: the value of each of the three two-digit
  fields. The source has no such function; it is the reader the round-trip property of
  the specification speaks of.\<close>

definition spec_hexValue :: "char \<Rightarrow> nat option" where
  "spec_hexValue c = map_of (zip ''0123456789ABCDEF'' [0..<16]) c"

definition spec_parseField :: "char \<Rightarrow> char \<Rightarrow> int option" where
  "spec_parseField hi lo =
     (case (spec_hexValue hi, spec_hexValue lo) of
        (Some h, Some l) \<Rightarrow> Some (int (16 * h + l))
      | _ \<Rightarrow> None)"

definition spec_parseHex :: "string \<Rightarrow> (int \<times> int \<times> int) option" where
  "spec_parseHex s =
     (case s of
        [h, r1, r2, g1, g2, b1, b2] \<Rightarrow>
          (if h \<noteq> CHR ''#'' then None
           else case (spec_parseField r1 r2, spec_parseField g1 g2, spec_parseField b1 b2) of
                  (Some vr, Some vg, Some vb) \<Rightarrow> Some (vr, vg, vb)
                | _ \<Rightarrow> None)
      | _ \<Rightarrow> None)"

text \<open>A colour whose three channels lie in the closed range from 0 to 255.\<close>

definition inRange :: "RGBColor \<Rightarrow> bool" where
  "inRange c = (0 \<le> r c \<and> r c \<le> 255 \<and> 0 \<le> g c \<and> g c \<le> 255 \<and> 0 \<le> b c \<and> b c \<le> 255)"

text \<open>The pixels of a buffer, the colours of its fully opaque pixels in buffer order,
  and a list cut down to the first occurrence of each of its elements.\<close>

fun quads :: "byte list \<Rightarrow> (byte \<times> byte \<times> byte \<times> byte) list" where
  "quads (cr # cg # cb # a # rest) = (cr, cg, cb, a) # quads rest"
| "quads _ = []"

definition opaqueTriples :: "byte list \<Rightarrow> (byte \<times> byte \<times> byte) list" where
  "opaqueTriples data =
     map (\<lambda>(cr, cg, cb, a). (cr, cg, cb)) (filter (\<lambda>(cr, cg, cb, a). a = 255) (quads data))"

function firstOccurrences :: "'a list \<Rightarrow> 'a list" where
  "firstOccurrences [] = []"
| "firstOccurrences (x # xs) = x # firstOccurrences (removeAll x xs)"
  by pat_completeness auto
termination
  by (relation "measure length") (simp_all add: le_imp_less_Suc length_removeAll_less_eq)

definition tripleRGB :: "byte \<times> byte \<times> byte \<Rightarrow> RGBColor" where
  "tripleRGB t = (case t of (cr, cg, cb) \<Rightarrow> toRGB cr cg cb)"

definition tripleKey :: "byte \<times> byte \<times> byte \<Rightarrow> string" where
  "tripleKey t = (case t of (cr, cg, cb) \<Rightarrow> pixelKey cr cg cb)"

section \<open>Closed forms of the two inner loops\<close>

text \<open>The samples a scan assigns to centroid \<open>i\<close>, the centroids after one iteration as a
  function of those before it, and the state after one iteration.\<close>

definition assigned :: "RGBColor list \<Rightarrow> RGBColor list \<Rightarrow> nat \<Rightarrow> RGBColor list" where
  "assigned cs pixels i = filter (\<lambda>p. closest cs p = i) pixels"

definition updated :: "RGBColor list \<Rightarrow> RGBColor list \<Rightarrow> RGBColor list" where
  "updated cs pixels =
     map (\<lambda>i. if assigned cs pixels i = [] then cs ! i else meanColor (assigned cs pixels i))
       [0..<length cs]"

definition next_state :: "RGBColor list \<Rightarrow> nat \<Rightarrow> kstate \<Rightarrow> kstate" where
  "next_state pixels k st =
     \<lparr>centroids = updated (centroids st) pixels, previousCentroids = centroids st,
      clusters = map (assigned (centroids st) pixels) [0..<k],
      iterations = iterations st + 1\<rparr>"

text \<open>What the loop keeps true of the centroid array: it is no longer than \<open>k\<close>, and
  when it is empty no earlier centroids are recorded either.\<close>

definition loop_inv :: "nat \<Rightarrow> kstate \<Rightarrow> bool" where
  "loop_inv k st \<longleftrightarrow>
     length (centroids st) \<le> k \<and> (centroids st = [] \<longrightarrow> previousCentroids st = [])"

text \<open>A state \<open>s\<close> reached from \<open>st0\<close> by running the loop body \<open>iterations s\<close> times,
  within the cap, the convergence test failing before each of these iterations.\<close>

definition on_trajectory :: "RGBColor list \<Rightarrow> nat \<Rightarrow> nat \<Rightarrow> kstate \<Rightarrow> kstate \<Rightarrow> bool" where
  "on_trajectory pixels k maxIterations st0 s \<longleftrightarrow>
     kMeans_iterate pixels k (iterations s) st0 = Inr s
     \<and> iterations s \<le> maxIterations
     \<and> (\<forall>m<iterations s. \<exists>sm. kMeans_iterate pixels k m st0 = Inr sm
            \<and> \<not> hasConverged (previousCentroids sm) (centroids sm))"

section \<open>The hexadecimal formatter\<close>

lemma upper_hexDigit_all:
  "list_all (\<lambda>d. toUpperCase_char (hexDigit d) = ''0123456789ABCDEF'' ! d) [0..<16]"
  by code_simp

lemma upper_hexDigit:
  "d < 16 \<Longrightarrow> toUpperCase_char (hexDigit d) = ''0123456789ABCDEF'' ! d"
  using upper_hexDigit_all unfolding list_all_iff by simp

lemma upper_zero: "toUpperCase_char CHR ''0'' = CHR ''0''"
  by code_simp

lemma upper_hash: "toUpperCase_char CHR ''#'' = CHR ''#''"
  by code_simp

lemma toString16_nat_small: "n < 16 \<Longrightarrow> toString16_nat n = [hexDigit n]"
  by (simp add: toString16_nat.simps)

lemma toString16_nat_byte:
  "16 \<le> n \<Longrightarrow> n \<le> 255 \<Longrightarrow> toString16_nat n = [hexDigit (n div 16), hexDigit (n mod 16)]"
  by (subst toString16_nat.simps) (simp add: toString16_nat_small)

lemma Math_round_range:
  assumes "0 \<le> v" "v \<le> 255"
  shows "0 \<le> Math_round v" "Math_round v \<le> 255"
  using assms unfolding Math_round_def by linarith+

lemma Math_round_nearest: "\<bar>real_of_int (Math_round v) - v\<bar> \<le> 1 / 2"
  unfolding Math_round_def by linarith

lemma toHex_byte:
  assumes "0 \<le> v" "v \<le> 255"
  shows "toUpperCase (toHex v) = spec_hexByte (nat (Math_round v))"
proof -
  define n where "n = nat (Math_round v)"
  have n: "n \<le> 255" and m: "Math_round v = int n"
    using Math_round_range [OF assms] by (simp_all add: n_def)
  have s: "toString16 (Math_round v) = toString16_nat n"
    by (simp add: toString16_def m)
  show ?thesis
  proof (cases "n < 16")
    case True
    then show ?thesis
      by (simp add: toHex_def s toString16_nat_small toUpperCase_def upper_zero
          upper_hexDigit spec_hexByte_def flip: n_def)
  next
    case False
    then have "16 \<le> n" by simp
    from toString16_nat_byte [OF this n] n show ?thesis
      by (simp add: toHex_def s toUpperCase_def upper_hexDigit spec_hexByte_def
          less_mult_imp_div_less flip: n_def)
  qed
qed

lemma rgbToHex_bytes:
  assumes "inRange c"
  shows "rgbToHex c =
     CHR ''#'' # spec_hexByte (nat (Math_round (r c))) @ spec_hexByte (nat (Math_round (g c)))
       @ spec_hexByte (nat (Math_round (b c)))"
proof -
  have "rgbToHex c = toUpperCase ''#'' @ toUpperCase (toHex (r c)) @ toUpperCase (toHex (g c))
      @ toUpperCase (toHex (b c))"
    by (simp add: rgbToHex_def toUpperCase_def)
  then show ?thesis
    using assms unfolding inRange_def
    by (simp add: toHex_byte) (simp add: toUpperCase_def upper_hash)
qed

section \<open>The sampler\<close>

text \<open>Pixel \<open>i\<close> of a buffer is made of the bytes at \<open>4 * i\<close> to \<open>4 * i + 3\<close>, which the
  loop of the source reads as red, green, blue and alpha.\<close>

lemma length_quads: "length (quads data) = length data div 4"
  by (induction data rule: quads.induct) simp_all

lemma quads_nth:
  "4 * i + 3 < length data \<Longrightarrow>
   quads data ! i = (data ! (4 * i), data ! (4 * i + 1), data ! (4 * i + 2), data ! (4 * i + 3))"
proof (induction data arbitrary: i rule: quads.induct)
  case (1 cr cg cb a rest)
  show ?case
  proof (cases i)
    case 0
    then show ?thesis by simp
  next
    case (Suc j)
    with "1.prems" have "4 * j + 3 < length rest" by simp
    from "1.IH" [OF this] Suc show ?thesis
      by (simp add: numeral_eq_Suc)
  qed
qed simp_all

lemma set_firstOccurrences: "set (firstOccurrences xs) = set xs"
  by (induction xs rule: firstOccurrences.induct) auto

lemma distinct_firstOccurrences: "distinct (firstOccurrences xs)"
  by (induction xs rule: firstOccurrences.induct) (auto simp: set_firstOccurrences)

lemma firstOccurrences_replicate: "0 < n \<Longrightarrow> firstOccurrences (replicate n x) = [x]"
  by (cases n) (simp_all add: removeAll_filter_not_eq)

lemma toString10_digits: "set (toString10 n) \<subseteq> set ''0123456789''"
proof (induction n rule: toString10.induct)
  case (1 n)
  have d: "decDigit (n mod 10) \<in> set ''0123456789''"
    unfolding decDigit_def by (rule nth_mem) simp
  show ?case
  proof (cases "n < 10")
    case True
    then have "decDigit n \<in> set ''0123456789''"
      unfolding decDigit_def by (intro nth_mem) simp
    with True show ?thesis by (subst toString10.simps) simp
  next
    case False
    with 1 d show ?thesis by (subst toString10.simps) simp
  qed
qed

lemma toString10_no_comma: "CHR '','' \<notin> set (toString10 n)"
  using toString10_digits [of n] by auto

lemma toString10_nonempty: "toString10 n \<noteq> []"
  by (subst toString10.simps) simp

lemma decDigit_inj: "i < 10 \<Longrightarrow> j < 10 \<Longrightarrow> decDigit i = decDigit j \<Longrightarrow> i = j"
  unfolding decDigit_def by (subst (asm) nth_eq_iff_index_eq) simp_all

lemma toString10_inj: "toString10 m = toString10 n \<Longrightarrow> m = n"
proof (induction m arbitrary: n rule: toString10.induct)
  case (1 m)
  show ?case
  proof (cases "m < 10")
    case m: True
    show ?thesis
    proof (cases "n < 10")
      case True
      with m 1(2) show ?thesis
        by (simp add: toString10.simps [of m] toString10.simps [of n] decDigit_inj)
    next
      case False
      with m 1(2) toString10_nonempty [of "n div 10"] show ?thesis
        by (simp add: toString10.simps [of m] toString10.simps [of n])
    qed
  next
    case m: False
    show ?thesis
    proof (cases "n < 10")
      case True
      with m 1(2) toString10_nonempty [of "m div 10"] show ?thesis
        by (simp add: toString10.simps [of m] toString10.simps [of n])
    next
      case False
      with m 1(2) have e: "toString10 (m div 10) = toString10 (n div 10)"
        and d: "decDigit (m mod 10) = decDigit (n mod 10)"
        by (simp_all add: toString10.simps [of m] toString10.simps [of n])
      from 1(1) [OF m e] have "m div 10 = n div 10" .
      moreover from d have "m mod 10 = n mod 10" by (intro decDigit_inj) simp_all
      ultimately show ?thesis by (metis div_mult_mod_eq)
    qed
  qed
qed

lemma split_at_unique:
  "c \<notin> set xs \<Longrightarrow> c \<notin> set xs' \<Longrightarrow> xs @ c # ys = xs' @ c # ys' \<Longrightarrow> xs = xs' \<and> ys = ys'"
proof (induction xs arbitrary: xs')
  case Nil
  then show ?case by (cases xs') auto
next
  case (Cons x xs)
  then show ?case by (cases xs') auto
qed

lemma pixelKey_inj:
  assumes "pixelKey cr cg cb = pixelKey cr' cg' cb'"
  shows "cr = cr' \<and> cg = cg' \<and> cb = cb'"
proof -
  from assms have
    "toString10 (unat cr) @ CHR '','' # (toString10 (unat cg) @ CHR '','' # toString10 (unat cb))
   = toString10 (unat cr') @ CHR '','' # (toString10 (unat cg') @ CHR '','' # toString10 (unat cb'))"
    by (simp add: pixelKey_def)
  from split_at_unique [OF toString10_no_comma toString10_no_comma this]
  have 1: "toString10 (unat cr) = toString10 (unat cr')"
    and "toString10 (unat cg) @ CHR '','' # toString10 (unat cb)
       = toString10 (unat cg') @ CHR '','' # toString10 (unat cb')"
    by simp_all
  from split_at_unique [OF toString10_no_comma toString10_no_comma this(2)]
  have 2: "toString10 (unat cg) = toString10 (unat cg')"
    and 3: "toString10 (unat cb) = toString10 (unat cb')"
    by simp_all
  from 1 2 3 show ?thesis
    by (auto dest!: toString10_inj simp: word_unat_eq_iff)
qed

lemma tripleKey_inj: "tripleKey s = tripleKey t \<Longrightarrow> s = t"
  by (cases s, cases t) (auto simp: tripleKey_def dest: pixelKey_inj)

lemma byte_opaque: "\<not> (a :: byte) < 255 \<longleftrightarrow> a = 255"
  unfolding word_less_nat_alt word_unat_eq_iff
  using unsigned_less [of a, where ?'a = nat] by auto

lemma tripleRGB_simp: "tripleRGB (cr, cg, cb) = toRGB cr cg cb"
  by (simp add: tripleRGB_def)

lemma tripleKey_simp: "tripleKey (cr, cg, cb) = pixelKey cr cg cb"
  by (simp add: tripleKey_def)

lemma samplePixels_general:
  "samplePixels data (map tripleRGB seen) (tripleKey ` set seen)
     = map tripleRGB (seen @ firstOccurrences (filter (\<lambda>t. t \<notin> set seen) (opaqueTriples data)))"
proof (induction data arbitrary: seen rule: quads.induct)
  case (1 cr cg cb a rest)
  show ?case
  proof (cases "a < 255")
    case True
    then have "a \<noteq> 255" by auto
    with True 1 [of seen] show ?thesis by (simp add: opaqueTriples_def)
  next
    case False
    then have a: "a = 255" by (simp add: byte_opaque)
    have key: "pixelKey cr cg cb \<in> tripleKey ` set seen \<longleftrightarrow> (cr, cg, cb) \<in> set seen"
    proof
      assume "pixelKey cr cg cb \<in> tripleKey ` set seen"
      then obtain t where "t \<in> set seen" "tripleKey (cr, cg, cb) = tripleKey t"
        by (auto simp: tripleKey_simp)
      then show "(cr, cg, cb) \<in> set seen" by (auto dest: tripleKey_inj)
    next
      assume "(cr, cg, cb) \<in> set seen"
      then have "tripleKey (cr, cg, cb) \<in> tripleKey ` set seen" by (rule imageI)
      then show "pixelKey cr cg cb \<in> tripleKey ` set seen" by (simp add: tripleKey_simp)
    qed
    show ?thesis
    proof (cases "(cr, cg, cb) \<in> set seen")
      case True
      with a key 1 [of seen] show ?thesis by (simp add: opaqueTriples_def)
    next
      case False
      have f: "removeAll (cr, cg, cb) (filter (\<lambda>t. t \<notin> set seen) (opaqueTriples rest))
             = filter (\<lambda>t. t \<notin> set (seen @ [(cr, cg, cb)])) (opaqueTriples rest)"
        by (auto simp: removeAll_filter_not_eq intro: filter_cong)
      from 1 [of "seen @ [(cr, cg, cb)]"]
      have "samplePixels rest (map tripleRGB seen @ [toRGB cr cg cb])
              (insert (pixelKey cr cg cb) (tripleKey ` set seen))
            = map tripleRGB ((seen @ [(cr, cg, cb)]) @
                firstOccurrences (filter (\<lambda>t. t \<notin> set (seen @ [(cr, cg, cb)])) (opaqueTriples rest)))"
        by (simp add: tripleRGB_simp tripleKey_simp)
      with False a key show ?thesis
        by (simp add: opaqueTriples_def f [unfolded opaqueTriples_def])
    qed
  qed
qed (simp_all add: opaqueTriples_def)

lemma samplePixels_eq:
  "samplePixels data [] {} = map tripleRGB (firstOccurrences (opaqueTriples data))"
  using samplePixels_general [of data "[]"] by simp

section \<open>One iteration\<close>

lemma closest_scan_bound:
  "ci < n \<Longrightarrow> \<forall>j\<in>set js. j < n \<Longrightarrow>
   snd (foldl
          (\<lambda>(minDistance, clusterIndex) i.
             let d = distance pixel (cs ! i)
             in if below d minDistance then (Some d, i) else (minDistance, clusterIndex))
          (m, ci) js) < n"
  by (induction js arbitrary: m ci) (simp_all add: Let_def)

lemma closest_less: "cs \<noteq> [] \<Longrightarrow> closest cs pixel < length cs"
  unfolding closest_def by (rule closest_scan_bound) simp_all

lemma closest_Nil: "closest [] pixel = 0"
  by (simp add: closest_def)

lemma assignPixels_Inr:
  "assignPixels cs pixels cl = Inr cl' \<longleftrightarrow>
     (\<forall>p\<in>set pixels. closest cs p < length cl)
     \<and> cl' = map (\<lambda>i. cl ! i @ assigned cs pixels i) [0..<length cl]"
proof (induction pixels arbitrary: cl)
  case Nil
  show ?case by (auto simp: assigned_def map_nth)
next
  case (Cons p rest)
  show ?case
  proof (cases "closest cs p < length cl")
    case False
    then show ?thesis by simp
  next
    case True
    let ?cl = "cl[closest cs p := cl ! closest cs p @ [p]]"
    have eq: "map (\<lambda>i. ?cl ! i @ assigned cs rest i) [0..<length ?cl]
        = map (\<lambda>i. cl ! i @ assigned cs (p # rest) i) [0..<length cl]"
      using True by (auto simp: assigned_def nth_list_update)
    from True have "(assignPixels cs (p # rest) cl = Inr cl')
        = (assignPixels cs rest ?cl = Inr cl')"
      by (simp add: Let_def)
    also have "\<dots> = ((\<forall>q\<in>set rest. closest cs q < length ?cl)
        \<and> cl' = map (\<lambda>i. ?cl ! i @ assigned cs rest i) [0..<length ?cl])"
      by (rule Cons)
    also have "\<dots> = ((\<forall>q\<in>set (p # rest). closest cs q < length cl)
        \<and> cl' = map (\<lambda>i. cl ! i @ assigned cs (p # rest) i) [0..<length cl])"
      by (simp only: eq) (use True in simp)
    finally show ?thesis .
  qed
qed

lemma assignPixels_replicate:
  "assignPixels cs pixels (replicate k []) = Inr cl' \<longleftrightarrow>
     (\<forall>p\<in>set pixels. closest cs p < k) \<and> cl' = map (assigned cs pixels) [0..<k]"
proof -
  have eq: "map (\<lambda>i. replicate k [] ! i @ assigned cs pixels i) [0..<k]
      = map (assigned cs pixels) [0..<k]"
    by (rule nth_equalityI) simp_all
  show ?thesis by (simp add: assignPixels_Inr eq)
qed

lemma array_set_Inr:
  "array_set xs i v = Inr ys \<Longrightarrow>
     length xs \<le> length ys \<and> (\<forall>j<length xs. ys ! j = (if j = i then v else xs ! j))"
  by (auto simp: array_set_def nth_append split: if_splits)

lemma updateCentroids_Inr:
  "updateCentroids js cl cs = Inr cs' \<Longrightarrow>
     length cs \<le> length cs'
     \<and> (\<forall>i<length cs. cs' ! i = (if i \<in> set js \<and> cl ! i \<noteq> [] then meanColor (cl ! i) else cs ! i))"
proof (induction js arbitrary: cs)
  case Nil
  then show ?case by simp
next
  case (Cons j js)
  show ?case
  proof (cases "cl ! j = []")
    case True
    with Cons.prems have "updateCentroids js cl cs = Inr cs'"
      by (simp split: if_splits)
    from Cons.IH [OF this] True show ?thesis by auto
  next
    case False
    with Cons.prems obtain cs1 where
      1: "array_set cs j (meanColor (cl ! j)) = Inr cs1" and 2: "updateCentroids js cl cs1 = Inr cs'"
      by (auto split: if_splits sum.splits)
    from array_set_Inr [OF 1] Cons.IH [OF 2] False show ?thesis by auto
  qed
qed

lemma updateCentroids_total:
  "\<forall>i\<in>set js. i < length cl \<and> (cl ! i \<noteq> [] \<longrightarrow> i < length cs) \<Longrightarrow>
   \<exists>cs'. updateCentroids js cl cs = Inr cs' \<and> length cs' = length cs"
proof (induction js arbitrary: cs)
  case Nil
  then show ?case by simp
next
  case (Cons j js)
  show ?case
  proof (cases "cl ! j = []")
    case True
    with Cons.prems Cons.IH [of cs] show ?thesis by simp
  next
    case False
    with Cons.prems have j: "j < length cs" "j < length cl" by simp_all
    from Cons.prems have "\<forall>i\<in>set js. i < length cl \<and> (cl ! i \<noteq> [] \<longrightarrow> i < length (cs[j := meanColor (cl ! j)]))"
      by simp
    from Cons.IH [OF this] False j show ?thesis by (simp add: array_set_def)
  qed
qed

lemma kMeans_iteration_Inr:
  assumes "kMeans_iteration pixels k st = Inr st'"
  shows "previousCentroids st' = centroids st"
    and "iterations st' = iterations st + 1"
    and "clusters st' = map (assigned (centroids st) pixels) [0..<k]"
    and "length (centroids st) \<le> length (centroids st')"
    and "\<forall>i<length (centroids st). i < k \<longrightarrow> centroids st' ! i = updated (centroids st) pixels ! i"
    and "\<forall>i<length (centroids st). k \<le> i \<longrightarrow> centroids st' ! i = centroids st ! i"
proof -
  from assms obtain cl cs where
    a: "assignPixels (centroids st) pixels (replicate k []) = Inr cl"
    and u: "updateCentroids [0..<k] cl (centroids st) = Inr cs"
    and s: "st' = \<lparr>centroids = cs, previousCentroids = centroids st, clusters = cl,
                  iterations = iterations st + 1\<rparr>"
    by (auto simp: kMeans_iteration_def split: sum.splits)
  from a have cl: "cl = map (assigned (centroids st) pixels) [0..<k]"
    by (simp add: assignPixels_replicate)
  from s show "previousCentroids st' = centroids st" "iterations st' = iterations st + 1"
    by simp_all
  from s cl show "clusters st' = map (assigned (centroids st) pixels) [0..<k]" by simp
  from updateCentroids_Inr [OF u] s show "length (centroids st) \<le> length (centroids st')"
    by simp
  from updateCentroids_Inr [OF u] s cl
  show "\<forall>i<length (centroids st). i < k \<longrightarrow> centroids st' ! i = updated (centroids st) pixels ! i"
    by (simp add: updated_def)
  from updateCentroids_Inr [OF u] s
  show "\<forall>i<length (centroids st). k \<le> i \<longrightarrow> centroids st' ! i = centroids st ! i"
    by simp
qed

lemma assigned_beyond:
  assumes "cs \<noteq> []" "length cs \<le> i"
  shows "assigned cs pixels i = []"
proof -
  have "closest cs p \<noteq> i" for p
    using closest_less [OF assms(1), of p] assms(2) by simp
  then show ?thesis by (simp add: assigned_def)
qed

lemma kMeans_iteration_total:
  assumes "centroids st \<noteq> []" "length (centroids st) \<le> k"
  shows "kMeans_iteration pixels k st =
     Inr \<lparr>centroids = updated (centroids st) pixels, previousCentroids = centroids st,
          clusters = map (assigned (centroids st) pixels) [0..<k],
          iterations = iterations st + 1\<rparr>"
proof -
  let ?cs = "centroids st"
  let ?cl = "map (assigned ?cs pixels) [0..<k]"
  have c: "\<forall>p\<in>set pixels. closest ?cs p < k"
    using closest_less [OF assms(1)] assms(2) by (meson less_le_trans)
  then have a: "assignPixels ?cs pixels (replicate k []) = Inr ?cl"
    by (simp add: assignPixels_replicate)
  have "\<forall>i\<in>set [0..<k]. i < length ?cl \<and> (?cl ! i \<noteq> [] \<longrightarrow> i < length ?cs)"
    using assigned_beyond [OF assms(1)] by (auto simp: not_less [symmetric])
  from updateCentroids_total [OF this] obtain cs' where
    u: "updateCentroids [0..<k] ?cl ?cs = Inr cs'" and l: "length cs' = length ?cs"
    by blast
  have "cs' = updated ?cs pixels"
  proof (rule nth_equalityI)
    show "length cs' = length (updated ?cs pixels)" by (simp add: l updated_def)
    fix i assume "i < length cs'"
    with l assms(2) have i: "i < length ?cs" "i < k" by simp_all
    with updateCentroids_Inr [OF u] show "cs' ! i = updated ?cs pixels ! i"
      by (simp add: updated_def)
  qed
  with a u show ?thesis by (simp add: kMeans_iteration_def)
qed

section \<open>The loop\<close>

lemma hasConverged_Nil: "hasConverged [] []"
  by (simp add: hasConverged_def)


lemma length_updated: "length (updated cs pixels) = length cs"
  by (simp add: updated_def)

lemma loop_inv_running:
  "loop_inv k st \<Longrightarrow> \<not> hasConverged (previousCentroids st) (centroids st) \<Longrightarrow> centroids st \<noteq> []"
  using hasConverged_Nil by (auto simp: loop_inv_def)

lemma loop_inv_next:
  "loop_inv k st \<Longrightarrow> centroids st \<noteq> [] \<Longrightarrow> loop_inv k (next_state pixels k st)"
  by (auto simp: loop_inv_def next_state_def length_updated updated_def)

lemma kMeans_iteration_next:
  "loop_inv k st \<Longrightarrow> centroids st \<noteq> [] \<Longrightarrow>
   kMeans_iteration pixels k st = Inr (next_state pixels k st)"
  unfolding next_state_def by (rule kMeans_iteration_total) (simp_all add: loop_inv_def)

lemma kMeans_loop_rule:
  assumes "loop_inv k st" "P st"
    and "\<forall>s. loop_inv k s \<and> P s \<and> centroids s \<noteq> [] \<and> iterations s < maxIterations
            \<and> \<not> hasConverged (previousCentroids s) (centroids s)
          \<longrightarrow> P (next_state pixels k s)"
  shows "\<exists>st'. kMeans_loop pixels k maxIterations st = Inr st' \<and> loop_inv k st' \<and> P st'
            \<and> (maxIterations \<le> iterations st'
               \<or> hasConverged (previousCentroids st') (centroids st'))"
  using assms
proof (induction pixels k maxIterations st rule: kMeans_loop.induct)
  case (1 pixels k maxIterations st)
  show ?case
  proof (cases "iterations st < maxIterations
                  \<and> \<not> hasConverged (previousCentroids st) (centroids st)")
    case False
    with "1.prems"(1,2) show ?thesis
      by (subst kMeans_loop.simps) auto
  next
    case True
    then have ne: "centroids st \<noteq> []"
      using loop_inv_running [OF "1.prems"(1)] by simp
    have it: "kMeans_iteration pixels k st = Inr (next_state pixels k st)"
      using "1.prems"(1) ne by (rule kMeans_iteration_next)
    have inv': "loop_inv k (next_state pixels k st)"
      using "1.prems"(1) ne by (rule loop_inv_next)
    have P': "P (next_state pixels k st)"
      using "1.prems" True ne by blast
    from "1.IH" [OF True it inv' P' "1.prems"(3)] True it show ?thesis
      by (subst kMeans_loop.simps) simp
  qed
qed

lemma sumColors_foldl:
  "foldl (\<lambda>acc pixel. \<lparr>r = r acc + r pixel, g = g acc + g pixel, b = b acc + b pixel\<rparr>) a cl
     = \<lparr>r = r a + sum_list (map r cl), g = g a + sum_list (map g cl),
        b = b a + sum_list (map b cl)\<rparr>"
  by (induction cl arbitrary: a) (simp_all add: add.assoc)

lemma sumColors_eq:
  "sumColors cl = \<lparr>r = sum_list (map r cl), g = sum_list (map g cl), b = sum_list (map b cl)\<rparr>"
  by (simp add: sumColors_def sumColors_foldl)

lemma meanColor_eq:
  "meanColor cl = \<lparr>r = sum_list (map r cl) / real (length cl),
                   g = sum_list (map g cl) / real (length cl),
                   b = sum_list (map b cl) / real (length cl)\<rparr>"
  by (simp add: meanColor_def sumColors_eq)

lemma sum_list_channel_bounds:
  "\<forall>p\<in>set cl. 0 \<le> f p \<and> f p \<le> (255::real) \<Longrightarrow>
   0 \<le> sum_list (map f cl) \<and> sum_list (map f cl) \<le> 255 * real (length cl)"
  by (induction cl) (auto simp: algebra_simps)

lemma mean_channel_bounds:
  assumes "cl \<noteq> []" "\<forall>p\<in>set cl. 0 \<le> f p \<and> f p \<le> (255::real)"
  shows "0 \<le> sum_list (map f cl) / real (length cl)"
    and "sum_list (map f cl) / real (length cl) \<le> 255"
proof -
  from assms(1) have n: "0 < real (length cl)" by simp
  from sum_list_channel_bounds [OF assms(2)] n
  show "0 \<le> sum_list (map f cl) / real (length cl)" by simp
  from sum_list_channel_bounds [OF assms(2)] n
  show "sum_list (map f cl) / real (length cl) \<le> 255"
    by (simp add: pos_divide_le_eq)
qed

lemma inRange_meanColor:
  assumes "cl \<noteq> []" "\<forall>p\<in>set cl. inRange p"
  shows "inRange (meanColor cl)"
  using mean_channel_bounds [OF assms(1), of r] mean_channel_bounds [OF assms(1), of g]
    mean_channel_bounds [OF assms(1), of b] assms(2)
  by (simp add: inRange_def meanColor_eq)

lemma inRange_updated:
  assumes "\<forall>p\<in>set pixels. inRange p" "\<forall>c\<in>set cs. inRange c"
  shows "\<forall>c\<in>set (updated cs pixels). inRange c"
proof -
  have "inRange ((\<lambda>i. if assigned cs pixels i = [] then cs ! i
                       else meanColor (assigned cs pixels i)) i)"
    if "i < length cs" for i
  proof (cases "assigned cs pixels i = []")
    case True
    with that assms(2) show ?thesis by simp
  next
    case False
    moreover have "\<forall>p\<in>set (assigned cs pixels i). inRange p"
      using assms(1) by (simp add: assigned_def)
    ultimately show ?thesis by (simp add: inRange_meanColor)
  qed
  then show ?thesis unfolding updated_def set_map by (simp only: ball_simps set_upt) simp
qed

section \<open>Runs of kMeans\<close>

lemma kMeans_iteration_closest:
  assumes "kMeans_iteration pixels k st = Inr st'"
  shows "\<forall>p\<in>set pixels. closest (centroids st) p < k"
  using assms by (auto simp: kMeans_iteration_def assignPixels_replicate split: sum.splits)





lemma loop_inv_init: "loop_inv k (init_state shuffled k)"
  by (simp add: loop_inv_def init_state_def)

lemma kMeans_run_rule:
  assumes "P (init_state (shuffle pixels) k)"
    and "\<forall>s. loop_inv k s \<and> P s \<and> centroids s \<noteq> [] \<and> iterations s < maxIterations
            \<and> \<not> hasConverged (previousCentroids s) (centroids s)
          \<longrightarrow> P (next_state (shuffle pixels) k s)"
  shows "\<exists>st. kMeans_run shuffle pixels k maxIterations = Inr st \<and> loop_inv k st \<and> P st
            \<and> (maxIterations \<le> iterations st
               \<or> hasConverged (previousCentroids st) (centroids st))"
  unfolding kMeans_run_def Let_def
  using loop_inv_init assms by (rule kMeans_loop_rule)

lemma on_trajectory_init:
  "iterations st0 = 0 \<Longrightarrow> on_trajectory pixels k maxIterations st0 st0"
  by (simp add: on_trajectory_def)

lemma on_trajectory_next:
  assumes "on_trajectory pixels k maxIterations st0 s" "loop_inv k s" "centroids s \<noteq> []"
    "iterations s < maxIterations" "\<not> hasConverged (previousCentroids s) (centroids s)"
  shows "on_trajectory pixels k maxIterations st0 (next_state pixels k s)"
proof -
  let ?s' = "next_state pixels k s"
  have n: "iterations ?s' = Suc (iterations s)" by (simp add: next_state_def)
  from assms(1) have t: "kMeans_iterate pixels k (iterations s) st0 = Inr s"
    and prev: "\<forall>m<iterations s. \<exists>sm. kMeans_iterate pixels k m st0 = Inr sm
            \<and> \<not> hasConverged (previousCentroids sm) (centroids sm)"
    by (simp_all add: on_trajectory_def)
  have 1: "kMeans_iterate pixels k (iterations ?s') st0 = Inr ?s'"
    unfolding n using t kMeans_iteration_next [OF assms(2,3)] by simp
  have 2: "iterations ?s' \<le> maxIterations" using n assms(4) by simp
  have 3: "\<exists>sm. kMeans_iterate pixels k m st0 = Inr sm
            \<and> \<not> hasConverged (previousCentroids sm) (centroids sm)"
    if "m < iterations ?s'" for m
  proof (cases "m = iterations s")
    case True
    with t assms(5) show ?thesis by simp
  next
    case False
    with that n have "m < iterations s" by simp
    with prev show ?thesis by simp
  qed
  from 1 2 3 show ?thesis unfolding on_trajectory_def by blast
qed

lemma kMeans_run_trajectory:
  "\<exists>st. kMeans_run shuffle pixels k maxIterations = Inr st
     \<and> on_trajectory (shuffle pixels) k maxIterations (init_state (shuffle pixels) k) st
     \<and> (maxIterations \<le> iterations st \<or> hasConverged (previousCentroids st) (centroids st))"
proof -
  let ?P = "on_trajectory (shuffle pixels) k maxIterations (init_state (shuffle pixels) k)"
  have "?P (init_state (shuffle pixels) k)"
    by (rule on_trajectory_init) (simp add: init_state_def)
  moreover have "\<forall>s. loop_inv k s \<and> ?P s \<and> centroids s \<noteq> [] \<and> iterations s < maxIterations
            \<and> \<not> hasConverged (previousCentroids s) (centroids s)
          \<longrightarrow> ?P (next_state (shuffle pixels) k s)"
    using on_trajectory_next by blast
  ultimately show ?thesis
    using kMeans_run_rule [of ?P shuffle pixels k maxIterations] by blast
qed

lemma kMeans_run_length:
  "\<exists>st. kMeans_run shuffle pixels k maxIterations = Inr st
     \<and> length (centroids st) = min k (length (shuffle pixels))"
proof -
  let ?P = "\<lambda>s. length (centroids s) = min k (length (shuffle pixels))"
  have "?P (init_state (shuffle pixels) k)"
    by (simp add: init_state_def min.commute)
  moreover have "\<forall>s. loop_inv k s \<and> ?P s \<and> centroids s \<noteq> [] \<and> iterations s < maxIterations
            \<and> \<not> hasConverged (previousCentroids s) (centroids s)
          \<longrightarrow> ?P (next_state (shuffle pixels) k s)"
    by (simp add: next_state_def length_updated)
  ultimately show ?thesis
    using kMeans_run_rule [of ?P shuffle pixels k maxIterations] by blast
qed

lemma kMeans_run_inRange:
  assumes "\<forall>p\<in>set (shuffle pixels). inRange p"
  shows "\<exists>st. kMeans_run shuffle pixels k maxIterations = Inr st
     \<and> (\<forall>c\<in>set (centroids st). inRange c)"
proof -
  let ?P = "\<lambda>s. \<forall>c\<in>set (centroids s). inRange c"
  have "?P (init_state (shuffle pixels) k)"
    using assms by (auto simp: init_state_def dest: in_set_takeD)
  moreover have "\<forall>s. loop_inv k s \<and> ?P s \<and> centroids s \<noteq> [] \<and> iterations s < maxIterations
            \<and> \<not> hasConverged (previousCentroids s) (centroids s)
          \<longrightarrow> ?P (next_state (shuffle pixels) k s)"
    using inRange_updated [OF assms] by (simp add: next_state_def) blast
  ultimately show ?thesis
    using kMeans_run_rule [of ?P shuffle pixels k maxIterations] by blast
qed

lemma kMeans_of_run:
  "kMeans_run shuffle pixels k maxIterations = Inr st \<Longrightarrow>
   kMeans shuffle pixels k maxIterations = Inr (centroids st)"
  by (simp add: kMeans_def)


lemma kMeans_loop_converged:
  "hasConverged (previousCentroids st) (centroids st) \<Longrightarrow>
   kMeans_loop pixels k maxIterations st = Inr st"
  by (subst kMeans_loop.simps) simp




lemma spec_hexValue_all:
  "list_all (\<lambda>d. spec_hexValue (''0123456789ABCDEF'' ! d) = Some d) [0..<16]"
  by code_simp

lemma spec_hexValue_digit: "d < 16 \<Longrightarrow> spec_hexValue (''0123456789ABCDEF'' ! d) = Some d"
  using spec_hexValue_all unfolding list_all_iff by simp

lemma spec_parseField_hexByte:
  assumes "n \<le> 255"
  shows "spec_parseField (spec_hexByte n ! 0) (spec_hexByte n ! 1) = Some (int n)"
proof -
  from assms have "n div 16 < 16" "n mod 16 < 16" by simp_all
  then show ?thesis
    by (simp add: spec_parseField_def spec_hexByte_def spec_hexValue_digit)
qed

lemma spec_parseHex_bytes:
  assumes "n1 \<le> 255" "n2 \<le> 255" "n3 \<le> 255"
  shows "spec_parseHex (CHR ''#'' # spec_hexByte n1 @ spec_hexByte n2 @ spec_hexByte n3)
     = Some (int n1, int n2, int n3)"
  using spec_parseField_hexByte [OF assms(1)] spec_parseField_hexByte [OF assms(2)]
    spec_parseField_hexByte [OF assms(3)]
  by (simp add: spec_parseHex_def spec_hexByte_def)

lemma round_trip:
  assumes "inRange c"
  shows "spec_parseHex (rgbToHex c) = Some (Math_round (r c), Math_round (g c), Math_round (b c))"
proof -
  from assms have
    "0 \<le> Math_round (r c) \<and> Math_round (r c) \<le> 255"
    "0 \<le> Math_round (g c) \<and> Math_round (g c) \<le> 255"
    "0 \<le> Math_round (b c) \<and> Math_round (b c) \<le> 255"
    by (simp_all add: inRange_def Math_round_range)
  then have "spec_parseHex (CHR ''#'' # spec_hexByte (nat (Math_round (r c)))
        @ spec_hexByte (nat (Math_round (g c))) @ spec_hexByte (nat (Math_round (b c))))
      = Some (Math_round (r c), Math_round (g c), Math_round (b c))"
    by (subst spec_parseHex_bytes) (simp_all add: nat_le_iff)
  with rgbToHex_bytes [OF assms] show ?thesis by simp
qed

lemma byte_channel: "0 \<le> real (unat x) \<and> real (unat x) \<le> 255" for x :: byte
proof -
  have "unat x < 256"
    using unsigned_less [of x, where ?'a = nat] by simp
  then have "real (unat x) < real 256" by (simp only: of_nat_less_iff)
  then show ?thesis by (simp del: of_nat_unat)
qed

lemma inRange_toRGB: "inRange (toRGB cr cg cb)"
  unfolding inRange_def toRGB_def RGBColor.simps
  using byte_channel [of cr] byte_channel [of cg] byte_channel [of cb] by blast

lemma inRange_samplePixels: "\<forall>p\<in>set (samplePixels data [] {}). inRange p"
  by (auto simp: samplePixels_eq tripleRGB_def inRange_toRGB)

lemma toRGB_inj: "toRGB cr cg cb = toRGB cr' cg' cb' \<Longrightarrow> cr = cr' \<and> cg = cg' \<and> cb = cb'"
  unfolding toRGB_def word_unat_eq_iff by (simp only: RGBColor.iffs of_nat_eq_iff)

lemma tripleRGB_inj: "inj tripleRGB"
  by (auto simp: inj_on_def tripleRGB_def dest: toRGB_inj)

lemma distinct_samplePixels: "distinct (samplePixels data [] {})"
  by (simp add: samplePixels_eq distinct_map distinct_firstOccurrences
      inj_on_subset [OF tripleRGB_inj])

lemma length_samplePixels: "length (samplePixels data [] {}) = card (set (opaqueTriples data))"
proof -
  have "length (samplePixels data [] {}) = length (firstOccurrences (opaqueTriples data))"
    by (simp add: samplePixels_eq)
  also have "\<dots> = card (set (firstOccurrences (opaqueTriples data)))"
    by (simp add: distinct_card distinct_firstOccurrences)
  finally show ?thesis by (simp add: set_firstOccurrences)
qed

lemma set_opaqueTriples:
  "set (opaqueTriples data) = {(cr, cg, cb). (cr, cg, cb, 255) \<in> set (quads data)}"
  by (auto simp: opaqueTriples_def image_iff)

lemma set_samplePixels:
  "set (samplePixels data [] {})
     = {toRGB cr cg cb | cr cg cb. (cr, cg, cb, 255) \<in> set (quads data)}"
proof -
  have "set (samplePixels data [] {}) = tripleRGB ` set (opaqueTriples data)"
    by (simp add: samplePixels_eq set_firstOccurrences)
  also have "\<dots> = {toRGB cr cg cb | cr cg cb. (cr, cg, cb, 255) \<in> set (quads data)}"
    unfolding set_opaqueTriples by (force simp: tripleRGB_def)
  finally show ?thesis .
qed

lemma quads_replicate: "quads (concat (replicate n [cr, cg, cb, a])) = replicate n (cr, cg, cb, a)"
  by (induction n) simp_all

lemma samplePixels_flat:
  "0 < n \<Longrightarrow> samplePixels (concat (replicate n [cr, cg, cb, 255])) [] {} = [toRGB cr cg cb]"
  by (simp add: samplePixels_eq opaqueTriples_def quads_replicate firstOccurrences_replicate
      tripleRGB_def)

lemma samplePixels_transparent:
  assumes "\<forall>q\<in>set (quads data). snd (snd (snd q)) < 255"
  shows "samplePixels data [] {} = []"
proof -
  have "filter (\<lambda>(cr, cg, cb, a). a = 255) (quads data) = []"
    using assms by (auto simp: filter_empty_conv)
  then show ?thesis by (simp add: samplePixels_eq opaqueTriples_def)
qed

lemma extractColors_small:
  "length (samplePixels data [] {}) \<le> k \<Longrightarrow>
   extractColors shuffle data k = Inr (map rgbToHex (samplePixels data [] {}))"
  by (simp add: extractColors_def)

lemma extractColors_large:
  "k < length (samplePixels data [] {}) \<Longrightarrow>
   kMeans shuffle (samplePixels data [] {}) k 100 = Inr cs \<Longrightarrow>
   extractColors shuffle data k = Inr (map rgbToHex cs)"
  by (simp add: extractColors_def)

lemma kMeans_length:
  assumes "mset (shuffle pixels) = mset pixels" "k \<le> length pixels"
  shows "\<exists>cs. kMeans shuffle pixels k maxIterations = Inr cs \<and> length cs = k"
proof -
  from assms(1) have "length (shuffle pixels) = length pixels" by (rule mset_eq_length)
  with kMeans_run_length [of shuffle pixels k maxIterations] assms(2) show ?thesis
    by (auto simp: kMeans_def)
qed

text \<open>Whatever permutation the comparator-driven sort leaves, the initial centroids of a
  run on more than \<open>k\<close> pairwise distinct samples are \<open>k\<close> pairwise distinct samples.\<close>

lemma initial_centroids_distinct:
  assumes "mset (shuffle pixels) = mset pixels" "distinct pixels" "k < length pixels"
  shows "length (centroids (init_state (shuffle pixels) k)) = k"
    and "distinct (centroids (init_state (shuffle pixels) k))"
    and "set (centroids (init_state (shuffle pixels) k)) \<subseteq> set pixels"
proof -
  from assms(1) have l: "length (shuffle pixels) = length pixels" by (rule mset_eq_length)
  from assms(1) have s: "set (shuffle pixels) = set pixels" by (rule mset_eq_setD)
  from assms(1,2) have d: "distinct (shuffle pixels)" by (metis distinct_count_atmost_1 set_mset_mset)
  from l assms(3) show "length (centroids (init_state (shuffle pixels) k)) = k"
    by (simp add: init_state_def)
  from d show "distinct (centroids (init_state (shuffle pixels) k))"
    by (simp add: init_state_def)
  from s set_take_subset [of k "shuffle pixels"]
  show "set (centroids (init_state (shuffle pixels) k)) \<subseteq> set pixels"
    by (simp add: init_state_def)
qed

section \<open>The claims\<close>

text \<open>
  Claim C1. The palette size law of \<open>extractColors\<close>. The samples are the distinct fully
  opaque colours of the buffer in order of first occurrence, and there are as many of them
  as there are distinct such colours. When that number is at most \<open>k\<close>, the result is each
  sample converted to hex, in that order, for any shuffle at all, since \<open>kMeans\<close> takes no
  part; its length is the number of samples, zero for a fully transparent image. Otherwise,
  for a shuffle that permutes the samples, the result has exactly \<open>k\<close> entries, one per
  centroid returned by \<open>kMeans\<close>.
\<close>

theorem palette_size_law:
  "4 dvd length data \<longrightarrow>
     samplePixels data [] {} = map tripleRGB (firstOccurrences (opaqueTriples data))
     \<and> length (samplePixels data [] {}) = card (set (opaqueTriples data))
     \<and> (card (set (opaqueTriples data)) \<le> k \<longrightarrow>
          extractColors shuffle data k = Inr (map rgbToHex (samplePixels data [] {}))
          \<and> (\<forall>hs. extractColors shuffle data k = Inr hs \<longrightarrow>
                length hs = card (set (opaqueTriples data))))
     \<and> (k < card (set (opaqueTriples data))
          \<and> mset (shuffle (samplePixels data [] {})) = mset (samplePixels data [] {}) \<longrightarrow>
          (\<exists>cs. kMeans shuffle (samplePixels data [] {}) k 100 = Inr cs \<and> length cs = k
             \<and> extractColors shuffle data k = Inr (map rgbToHex cs)
             \<and> (\<forall>hs. extractColors shuffle data k = Inr hs \<longrightarrow> length hs = k)))"
proof -
  let ?px = "samplePixels data [] {}"
  let ?n = "card (set (opaqueTriples data))"
  note len = length_samplePixels [of data]
  have small: "extractColors shuffle data k = Inr (map rgbToHex ?px)
      \<and> (\<forall>hs. extractColors shuffle data k = Inr hs \<longrightarrow> length hs = ?n)"
    if "?n \<le> k"
  proof -
    from that have "length ?px \<le> k" by (simp add: len)
    from extractColors_small [OF this, of shuffle] show ?thesis by (auto simp: len)
  qed
  have large: "\<exists>cs. kMeans shuffle ?px k 100 = Inr cs \<and> length cs = k
             \<and> extractColors shuffle data k = Inr (map rgbToHex cs)
             \<and> (\<forall>hs. extractColors shuffle data k = Inr hs \<longrightarrow> length hs = k)"
    if "k < ?n" "mset (shuffle ?px) = mset ?px"
  proof -
    from that(1) have k: "k < length ?px" by (simp add: len)
    then have "k \<le> length ?px" by simp
    with kMeans_length [of shuffle ?px k 100] that(2) obtain cs where
      cs: "kMeans shuffle ?px k 100 = Inr cs" "length cs = k"
      by blast
    from extractColors_large [OF k cs(1)] cs show ?thesis by auto
  qed
  from small large len samplePixels_eq [of data] show ?thesis by blast
qed

theorem palette_size_law_witness:
  "4 dvd length [255, 0, 0, 255, 0, 0, 255, 255, 255, 0, 0, 255, 1, 2, 3, 0, 10, 10, 10, 255 :: byte]
   \<and> opaqueTriples [255, 0, 0, 255, 0, 0, 255, 255, 255, 0, 0, 255, 1, 2, 3, 0, 10, 10, 10, 255]
       = [(255, 0, 0), (0, 0, 255), (255, 0, 0), (10, 10, 10)]
   \<and> card (set [(255, 0, 0), (0, 0, 255), (255, 0, 0), (10, 10, 10 :: byte) :: byte \<times> byte \<times> byte])
       = 3
   \<and> samplePixels [255, 0, 0, 255, 0, 0, 255, 255, 255, 0, 0, 255, 1, 2, 3, 0, 10, 10, 10, 255]
        [] {}
       = [toRGB 255 0 0, toRGB 0 0 255, toRGB 10 10 10]
   \<and> extractColors rev
        [255, 0, 0, 255, 0, 0, 255, 255, 255, 0, 0, 255, 1, 2, 3, 0, 10, 10, 10, 255] 6
       = Inr [''#FF0000'', ''#0000FF'', ''#0A0A0A'']
   \<and> extractColors rev
        [255, 0, 0, 255, 0, 0, 255, 255, 255, 0, 0, 255, 1, 2, 3, 0, 10, 10, 10, 255] 3
       = Inr [''#FF0000'', ''#0000FF'', ''#0A0A0A'']
   \<and> mset (rev [toRGB 255 0 0, toRGB 0 0 255, toRGB 10 10 10])
       = mset [toRGB 255 0 0, toRGB 0 0 255, toRGB 10 10 10]
   \<and> kMeans rev [toRGB 255 0 0, toRGB 0 0 255, toRGB 10 10 10] 2 100
       = Inr [\<lparr>r = 265 / 2, g = 5, b = 5\<rparr>, \<lparr>r = 0, g = 0, b = 255\<rparr>]
   \<and> extractColors rev
        [255, 0, 0, 255, 0, 0, 255, 255, 255, 0, 0, 255, 1, 2, 3, 0, 10, 10, 10, 255] 2
       = Inr [''#850505'', ''#0000FF'']"
proof -
  let ?data = "[255, 0, 0, 255, 0, 0, 255, 255, 255, 0, 0, 255, 1, 2, 3, 0, 10, 10, 10, 255 :: byte]"
  have d: "4 dvd length ?data" by code_simp
  have o: "opaqueTriples ?data = [(255, 0, 0), (0, 0, 255), (255, 0, 0), (10, 10, 10)]"
    by code_simp
  have c: "card (set [(255, 0, 0), (0, 0, 255), (255, 0, 0), (10, 10, 10 :: byte)
             :: byte \<times> byte \<times> byte]) = 3"
    by code_simp
  have s: "samplePixels ?data [] {} = [toRGB 255 0 0, toRGB 0 0 255, toRGB 10 10 10]"
    by code_simp
  have h: "map rgbToHex [toRGB 255 0 0, toRGB 0 0 255, toRGB 10 10 10]
      = [''#FF0000'', ''#0000FF'', ''#0A0A0A'']"
    by code_simp
  have k: "kMeans rev [toRGB 255 0 0, toRGB 0 0 255, toRGB 10 10 10] 2 100
      = Inr [\<lparr>r = 265 / 2, g = 5, b = 5\<rparr>, \<lparr>r = 0, g = 0, b = 255\<rparr>]"
    by code_simp
  have h2: "rgbToHex \<lparr>r = 265 / 2, g = 5, b = 5\<rparr> = ''#850505''"
    "rgbToHex \<lparr>r = 0, g = 0, b = 255\<rparr> = ''#0000FF''"
    by code_simp+
  have p: "mset (rev (samplePixels ?data [] {})) = mset (samplePixels ?data [] {})"
    by simp
  from palette_size_law [of ?data 6 rev] d
  have "card (set (opaqueTriples ?data)) \<le> 6 \<longrightarrow>
      extractColors rev ?data 6 = Inr (map rgbToHex (samplePixels ?data [] {}))"
    by blast
  then have e6: "extractColors rev ?data 6 = Inr [''#FF0000'', ''#0000FF'', ''#0A0A0A'']"
    unfolding o c s h by simp
  from palette_size_law [of ?data 3 rev] d
  have "card (set (opaqueTriples ?data)) \<le> 3 \<longrightarrow>
      extractColors rev ?data 3 = Inr (map rgbToHex (samplePixels ?data [] {}))"
    by blast
  then have e3: "extractColors rev ?data 3 = Inr [''#FF0000'', ''#0000FF'', ''#0A0A0A'']"
    unfolding o c s h by simp
  from palette_size_law [of ?data 2 rev] d p
  have "2 < card (set (opaqueTriples ?data)) \<longrightarrow>
      (\<exists>cs. kMeans rev (samplePixels ?data [] {}) 2 100 = Inr cs
         \<and> extractColors rev ?data 2 = Inr (map rgbToHex cs))"
    by blast
  then have e2: "extractColors rev ?data 2 = Inr [''#850505'', ''#0000FF'']"
    unfolding o c s using k by (auto simp: h2)
  from d o c s e6 e3 k e2 show ?thesis by simp
qed

text \<open>
  Claim C2. The sampler. For a buffer of whole pixels, the samples are the colours of the
  pixels with alpha 255, each kept once, at its first occurrence, in buffer order: as a
  set they are exactly the colours that occur with alpha 255, so a pixel with a smaller
  alpha contributes nothing. When every pixel has alpha below 255 there is no sample and
  \<open>extractColors\<close> returns the empty list for every \<open>k\<close>. A buffer of \<open>n > 0\<close> pixels of one
  opaque colour gives exactly one sample.
\<close>

theorem sampler_postcondition:
  "(4 dvd length data \<longrightarrow>
      samplePixels data [] {} = map tripleRGB (firstOccurrences (opaqueTriples data))
      \<and> set (samplePixels data [] {})
          = {toRGB cr cg cb | cr cg cb. (cr, cg, cb, 255) \<in> set (quads data)}
      \<and> distinct (samplePixels data [] {})
      \<and> ((\<forall>q\<in>set (quads data). snd (snd (snd q)) < 255) \<longrightarrow>
            samplePixels data [] {} = [] \<and> extractColors shuffle data k = Inr []))
   \<and> (0 < n \<longrightarrow>
        samplePixels (concat (replicate n [cr, cg, cb, 255])) [] {} = [toRGB cr cg cb])"
proof -
  have "samplePixels data [] {} = [] \<and> extractColors shuffle data k = Inr []"
    if "\<forall>q\<in>set (quads data). snd (snd (snd q)) < 255"
    using samplePixels_transparent [OF that] by (simp add: extractColors_def)
  with samplePixels_eq [of data] set_samplePixels [of data] distinct_samplePixels [of data]
    samplePixels_flat [of n cr cg cb]
  show ?thesis by blast
qed

theorem sampler_postcondition_witness:
  "4 dvd length [9, 9, 9, 255, 7, 7, 7, 254, 9, 9, 9, 255, 1, 2, 3, 255 :: byte]
   \<and> samplePixels [9, 9, 9, 255, 7, 7, 7, 254, 9, 9, 9, 255, 1, 2, 3, 255] [] {}
       = [toRGB 9 9 9, toRGB 1 2 3]
   \<and> 4 dvd length [7, 7, 7, 254, 1, 2, 3, 0 :: byte]
   \<and> quads [7, 7, 7, 254, 1, 2, 3, 0] = [(7, 7, 7, 254), (1, 2, 3, 0)]
   \<and> (254 :: byte) < 255 \<and> (0 :: byte) < 255
   \<and> samplePixels [7, 7, 7, 254, 1, 2, 3, 0] [] {} = []
   \<and> extractColors rev [7, 7, 7, 254, 1, 2, 3, 0] 6 = Inr []
   \<and> (0::nat) < 3
   \<and> samplePixels [9, 8, 7, 255, 9, 8, 7, 255, 9, 8, 7, 255] [] {} = [toRGB 9 8 7]"
proof -
  let ?d1 = "[9, 9, 9, 255, 7, 7, 7, 254, 9, 9, 9, 255, 1, 2, 3, 255 :: byte]"
  let ?d2 = "[7, 7, 7, 254, 1, 2, 3, 0 :: byte]"
  have d: "4 dvd length ?d1" "4 dvd length ?d2" by code_simp+
  have o: "map tripleRGB (firstOccurrences (opaqueTriples ?d1)) = [toRGB 9 9 9, toRGB 1 2 3]"
    by (simp add: opaqueTriples_def tripleRGB_def)
  have t: "\<forall>q\<in>set (quads ?d2). snd (snd (snd q)) < 255" by simp
  have r: "concat (replicate 3 [9, 8, 7, 255 :: byte]) = [9, 8, 7, 255, 9, 8, 7, 255, 9, 8, 7, 255]"
    by code_simp
  from sampler_postcondition [of ?d1 rev 6 3 9 8 7] sampler_postcondition [of ?d2 rev 6 3 9 8 7]
    d t
  show ?thesis unfolding o r by simp
qed

text \<open>
  Claim C3. For a colour with every channel between 0 and 255, \<open>rgbToHex\<close> rounds each
  channel on its own to the nearest integer (\<open>Math.round\<close>, which is at most one half
  away from its argument), writes each as exactly two hexadecimal digits with a leading
  zero where needed, in the order red, green, blue after a \<open>#\<close>, in upper case, seven
  characters in all. Black gives \<open>#000000\<close>, white \<open>#FFFFFF\<close> and pure red \<open>#FF0000\<close>.
\<close>

theorem rgbToHex_contract:
  "(inRange c \<longrightarrow>
      rgbToHex c =
        CHR ''#'' # spec_hexByte (nat (Math_round (r c))) @ spec_hexByte (nat (Math_round (g c)))
          @ spec_hexByte (nat (Math_round (b c)))
      \<and> length (rgbToHex c) = 7)
   \<and> Math_round v = round v
   \<and> \<bar>real_of_int (Math_round v) - v\<bar> \<le> 1 / 2
   \<and> rgbToHex \<lparr>r = 0, g = 0, b = 0\<rparr> = ''#000000''
   \<and> rgbToHex \<lparr>r = 255, g = 255, b = 255\<rparr> = ''#FFFFFF''
   \<and> rgbToHex \<lparr>r = 255, g = 0, b = 0\<rparr> = ''#FF0000''"
proof -
  have e1: "rgbToHex \<lparr>r = 0, g = 0, b = 0\<rparr> = ''#000000''" by code_simp
  have e2: "rgbToHex \<lparr>r = 255, g = 255, b = 255\<rparr> = ''#FFFFFF''" by code_simp
  have e3: "rgbToHex \<lparr>r = 255, g = 0, b = 0\<rparr> = ''#FF0000''" by code_simp
  have rd: "Math_round v = round v" by (simp add: Math_round_def round_def)
  show ?thesis
    using e1 e2 e3 rd Math_round_nearest [of v]
    by (auto simp: rgbToHex_bytes spec_hexByte_def simp del: One_nat_def)
qed

theorem rgbToHex_contract_witness:
  "inRange \<lparr>r = 25 / 2, g = 20049 / 100, b = 1 / 2\<rparr>
   \<and> rgbToHex \<lparr>r = 25 / 2, g = 20049 / 100, b = 1 / 2\<rparr> = ''#0DC801''"
proof -
  have h: "inRange \<lparr>r = 25 / 2, g = 20049 / 100, b = 1 / 2\<rparr>"
    by (simp add: inRange_def)
  have m: "Math_round (25 / 2) = 13" "Math_round (20049 / 100) = 200" "Math_round (1 / 2) = 1"
    by (simp_all add: Math_round_def)
  show ?thesis
    using h rgbToHex_contract [of "\<lparr>r = 25 / 2, g = 20049 / 100, b = 1 / 2\<rparr>" 0]
    by (simp add: m spec_hexByte_def)
qed

text \<open>
  Claim C4. The iteration bound. Every call of \<open>kMeans\<close> returns, without an error, the
  centroids of the state \<open>st\<close> in which the loop stops. That state is reached by running
  the loop body exactly \<open>iterations st\<close> times from the initial state, \<open>iterations st\<close> is at
  most \<open>maxIterations\<close>, and the loop stops there because the cap is reached or the
  convergence test holds; before each of the iterations it ran, the convergence test
  failed. This holds for every sample list, every \<open>k\<close> and every cap, in particular for a
  non-empty list, \<open>k \<ge> 1\<close> and \<open>maxIterations \<ge> 1\<close>.
\<close>

theorem kMeans_iteration_bound:
  "\<exists>st. kMeans_run shuffle pixels k maxIterations = Inr st
     \<and> kMeans shuffle pixels k maxIterations = Inr (centroids st)
     \<and> iterations st \<le> maxIterations
     \<and> (iterations st = maxIterations \<or> hasConverged (previousCentroids st) (centroids st))
     \<and> kMeans_iterate (shuffle pixels) k (iterations st) (init_state (shuffle pixels) k) = Inr st
     \<and> (\<forall>m<iterations st.
           \<exists>sm. kMeans_iterate (shuffle pixels) k m (init_state (shuffle pixels) k) = Inr sm
              \<and> \<not> hasConverged (previousCentroids sm) (centroids sm))"
proof -
  from kMeans_run_trajectory [of shuffle pixels k maxIterations] obtain st where
    run: "kMeans_run shuffle pixels k maxIterations = Inr st"
    and tr: "on_trajectory (shuffle pixels) k maxIterations (init_state (shuffle pixels) k) st"
    and stop: "maxIterations \<le> iterations st \<or> hasConverged (previousCentroids st) (centroids st)"
    by blast
  from tr have le: "iterations st \<le> maxIterations" by (simp add: on_trajectory_def)
  with stop have "iterations st = maxIterations
      \<or> hasConverged (previousCentroids st) (centroids st)"
    by auto
  with run kMeans_of_run [OF run] tr le show ?thesis
    unfolding on_trajectory_def by blast
qed

theorem kMeans_iteration_bound_witness:
  "(\<exists>st. kMeans_run (\<lambda>xs. xs) [toRGB 255 0 0, toRGB 0 0 255, toRGB 10 10 10, toRGB 250 0 0] 2 100
            = Inr st
      \<and> iterations st = 2 \<and> iterations st \<le> 100
      \<and> hasConverged (previousCentroids st) (centroids st)
      \<and> kMeans_iterate [toRGB 255 0 0, toRGB 0 0 255, toRGB 10 10 10, toRGB 250 0 0] 2 2
           (init_state [toRGB 255 0 0, toRGB 0 0 255, toRGB 10 10 10, toRGB 250 0 0] 2)
         = Inr st)
   \<and> (\<exists>st. kMeans_run (\<lambda>xs. xs) [toRGB 255 0 0, toRGB 0 0 255, toRGB 10 10 10, toRGB 250 0 0] 2 1
            = Inr st
      \<and> iterations st = 1 \<and> \<not> hasConverged (previousCentroids st) (centroids st))"
proof -
  let ?px = "[toRGB 255 0 0, toRGB 0 0 255, toRGB 10 10 10, toRGB 250 0 0]"
  have i2: "map_sum id iterations (kMeans_run (\<lambda>xs. xs) ?px 2 100) = Inr 2"
    by code_simp
  have i1: "map_sum id iterations (kMeans_run (\<lambda>xs. xs) ?px 2 1) = Inr 1"
    by code_simp
  have c1: "map_sum id (\<lambda>st. hasConverged (previousCentroids st) (centroids st))
              (kMeans_run (\<lambda>xs. xs) ?px 2 1) = Inr False"
    by code_simp
  from kMeans_iteration_bound [of "\<lambda>xs. xs" ?px 2 100] i2
  have A: "\<exists>st. kMeans_run (\<lambda>xs. xs) ?px 2 100 = Inr st
      \<and> iterations st = 2 \<and> iterations st \<le> 100
      \<and> hasConverged (previousCentroids st) (centroids st)
      \<and> kMeans_iterate ?px 2 2 (init_state ?px 2) = Inr st"
    by auto
  from kMeans_iteration_bound [of "\<lambda>xs. xs" ?px 2 1] i1 c1
  have B: "\<exists>st. kMeans_run (\<lambda>xs. xs) ?px 2 1 = Inr st
      \<and> iterations st = 1 \<and> \<not> hasConverged (previousCentroids st) (centroids st)"
    by auto
  from A B show ?thesis by blast
qed





text \<open>
  Claim C7. Empty clusters. In an iteration that goes from \<open>st\<close> to \<open>st'\<close>, cluster \<open>i\<close> holds the
  samples whose closest centroid is centroid \<open>i\<close>. A centroid to which no sample is assigned
  is exactly the same after the iteration; a centroid with at least one assigned sample is
  replaced by the mean of its assigned samples. The loop runs nothing but such iterations,
  so this holds in every iteration of every run.
\<close>

theorem empty_cluster_preserved:
  "kMeans_iteration pixels k st = Inr st' \<and> i < length (centroids st) \<longrightarrow>
     (i < k \<longrightarrow> clusters st' ! i = filter (\<lambda>p. closest (centroids st) p = i) pixels)
     \<and> ((\<forall>p\<in>set pixels. closest (centroids st) p \<noteq> i) \<longrightarrow>
          centroids st' ! i = centroids st ! i)
     \<and> ((\<exists>p\<in>set pixels. closest (centroids st) p = i) \<longrightarrow>
          i < k \<and> centroids st' ! i
                = meanColor (filter (\<lambda>p. closest (centroids st) p = i) pixels))"
proof (intro impI, elim conjE)
  assume it: "kMeans_iteration pixels k st = Inr st'" and i: "i < length (centroids st)"
  note facts = kMeans_iteration_Inr [OF it]
  have 1: "clusters st' ! i = filter (\<lambda>p. closest (centroids st) p = i) pixels" if "i < k"
    using that facts(3) by (simp add: assigned_def)
  have 2: "centroids st' ! i = centroids st ! i"
    if e: "\<forall>p\<in>set pixels. closest (centroids st) p \<noteq> i"
  proof (cases "i < k")
    case True
    from e have "assigned (centroids st) pixels i = []" by (simp add: assigned_def)
    with facts(5) i True show ?thesis by (simp add: updated_def)
  next
    case False
    with facts(6) i show ?thesis by simp
  qed
  have 3: "i < k \<and> centroids st' ! i
                = meanColor (filter (\<lambda>p. closest (centroids st) p = i) pixels)"
    if e: "\<exists>p\<in>set pixels. closest (centroids st) p = i"
  proof -
    from e kMeans_iteration_closest [OF it] have k: "i < k" by auto
    from e have "assigned (centroids st) pixels i \<noteq> []"
      by (auto simp: assigned_def filter_empty_conv)
    with facts(5) i k show ?thesis by (simp add: updated_def assigned_def)
  qed
  from 1 2 3
  show "(i < k \<longrightarrow> clusters st' ! i = filter (\<lambda>p. closest (centroids st) p = i) pixels)
     \<and> ((\<forall>p\<in>set pixels. closest (centroids st) p \<noteq> i) \<longrightarrow>
          centroids st' ! i = centroids st ! i)
     \<and> ((\<exists>p\<in>set pixels. closest (centroids st) p = i) \<longrightarrow>
          i < k \<and> centroids st' ! i
                = meanColor (filter (\<lambda>p. closest (centroids st) p = i) pixels))"
    by blast
qed

theorem empty_cluster_preserved_witness:
  "kMeans_iteration [toRGB 0 0 0, toRGB 2 0 0] 2
     \<lparr>centroids = [toRGB 3 0 0, toRGB 200 0 0], previousCentroids = [], clusters = [],
      iterations = 0\<rparr>
   = Inr \<lparr>centroids = [toRGB 1 0 0, toRGB 200 0 0],
          previousCentroids = [toRGB 3 0 0, toRGB 200 0 0],
          clusters = [[toRGB 0 0 0, toRGB 2 0 0], []], iterations = 1\<rparr>
   \<and> (1::nat) < length [toRGB 3 0 0, toRGB 200 0 0]
   \<and> closest [toRGB 3 0 0, toRGB 200 0 0] (toRGB 0 0 0) = 0
   \<and> closest [toRGB 3 0 0, toRGB 200 0 0] (toRGB 2 0 0) = 0
   \<and> [toRGB 1 0 0, toRGB 200 0 0] ! 1 = [toRGB 3 0 0, toRGB 200 0 0] ! 1
   \<and> [toRGB 1 0 0, toRGB 200 0 0] ! 0 = meanColor [toRGB 0 0 0, toRGB 2 0 0]"
proof -
  let ?px = "[toRGB 0 0 0, toRGB 2 0 0]"
  let ?st = "\<lparr>centroids = [toRGB 3 0 0, toRGB 200 0 0], previousCentroids = [], clusters = [],
      iterations = 0\<rparr>"
  let ?st' = "\<lparr>centroids = [toRGB 1 0 0, toRGB 200 0 0],
          previousCentroids = [toRGB 3 0 0, toRGB 200 0 0],
          clusters = [[toRGB 0 0 0, toRGB 2 0 0], []], iterations = 1\<rparr>"
  have it: "kMeans_iteration ?px 2 ?st = Inr ?st'"
    by code_simp
  have c: "closest [toRGB 3 0 0, toRGB 200 0 0] (toRGB 0 0 0) = 0"
    "closest [toRGB 3 0 0, toRGB 200 0 0] (toRGB 2 0 0) = 0"
    by code_simp+
  from empty_cluster_preserved [of ?px 2 ?st ?st' 1] empty_cluster_preserved [of ?px 2 ?st ?st' 0]
    it c
  show ?thesis by simp
qed

text \<open>
  Claim C8. Round trip. For a colour \<open>c\<close> with channels between 0 and 255, reading the three
  two-digit fields of \<open>rgbToHex c\<close> back gives the three channels of \<open>c\<close>, each rounded to the
  nearest integer. Every string that \<open>extractColors\<close> returns is \<open>rgbToHex\<close> of a sample or of
  a centroid returned by \<open>kMeans\<close>; these colours are in range, so the round trip holds for
  every emitted string.
\<close>

theorem hex_round_trip:
  "(inRange c \<longrightarrow>
      spec_parseHex (rgbToHex c) = Some (Math_round (r c), Math_round (g c), Math_round (b c)))
   \<and> (4 dvd length data
        \<and> mset (shuffle (samplePixels data [] {})) = mset (samplePixels data [] {}) \<longrightarrow>
       (\<exists>cs. extractColors shuffle data k = Inr (map rgbToHex cs)
          \<and> (if length (samplePixels data [] {}) \<le> k then cs = samplePixels data [] {}
              else kMeans shuffle (samplePixels data [] {}) k 100 = Inr cs)
          \<and> (\<forall>c\<in>set cs. inRange c
                \<and> spec_parseHex (rgbToHex c)
                    = Some (Math_round (r c), Math_round (g c), Math_round (b c)))))"
proof -
  let ?px = "samplePixels data [] {}"
  have pipeline: "\<exists>cs. extractColors shuffle data k = Inr (map rgbToHex cs)
          \<and> (if length ?px \<le> k then cs = ?px else kMeans shuffle ?px k 100 = Inr cs)
          \<and> (\<forall>c\<in>set cs. inRange c
                \<and> spec_parseHex (rgbToHex c)
                    = Some (Math_round (r c), Math_round (g c), Math_round (b c)))"
    if perm: "mset (shuffle ?px) = mset ?px"
  proof (cases "length ?px \<le> k")
    case True
    with extractColors_small [OF True, of shuffle] inRange_samplePixels [of data] show ?thesis
      by (auto simp: round_trip)
  next
    case False
    from perm have "set (shuffle ?px) = set ?px" by (rule mset_eq_setD)
    with inRange_samplePixels [of data] have "\<forall>p\<in>set (shuffle ?px). inRange p" by simp
    with kMeans_run_inRange [of shuffle ?px k 100] obtain cs where
      cs: "kMeans shuffle ?px k 100 = Inr cs" "\<forall>c\<in>set cs. inRange c"
      by (auto simp: kMeans_def)
    from False have "k < length ?px" by simp
    from extractColors_large [OF this cs(1)] cs False show ?thesis
      by (auto simp: round_trip)
  qed
  with round_trip [of c] show ?thesis by blast
qed

theorem hex_round_trip_witness:
  "inRange \<lparr>r = 515 / 3, g = 10 / 3, b = 7 / 2\<rparr>
   \<and> rgbToHex \<lparr>r = 515 / 3, g = 10 / 3, b = 7 / 2\<rparr> = ''#AC0304''
   \<and> spec_parseHex ''#AC0304'' = Some (172, 3, 4)
   \<and> 4 dvd length [255, 0, 0, 255, 0, 0, 255, 255, 255, 0, 0, 255, 1, 2, 3, 0, 10, 10, 10, 255 :: byte]
   \<and> kMeans (\<lambda>xs. xs)
        (samplePixels
           [255, 0, 0, 255, 0, 0, 255, 255, 255, 0, 0, 255, 1, 2, 3, 0, 10, 10, 10, 255] [] {})
        2 100
      = Inr [\<lparr>r = 265 / 2, g = 5, b = 5\<rparr>, \<lparr>r = 0, g = 0, b = 255\<rparr>]
   \<and> extractColors (\<lambda>xs. xs)
        [255, 0, 0, 255, 0, 0, 255, 255, 255, 0, 0, 255, 1, 2, 3, 0, 10, 10, 10, 255] 2
      = Inr [''#850505'', ''#0000FF'']
   \<and> spec_parseHex ''#850505'' = Some (133, 5, 5)
   \<and> spec_parseHex ''#0000FF'' = Some (0, 0, 255)"
proof -
  let ?c = "\<lparr>r = 515 / 3, g = 10 / 3, b = 7 / 2\<rparr>"
  let ?data = "[255, 0, 0, 255, 0, 0, 255, 255, 255, 0, 0, 255, 1, 2, 3, 0, 10, 10, 10, 255 :: byte]"
  have h: "inRange ?c" by (simp add: inRange_def)
  have m: "Math_round (515 / 3) = 172" "Math_round (10 / 3) = 3" "Math_round (7 / 2) = 4"
    "Math_round (265 / 2) = 133" "Math_round 5 = 5" "Math_round 0 = 0" "Math_round 255 = 255"
    by (simp_all add: Math_round_def)
  have x: "rgbToHex ?c = ''#AC0304''" "rgbToHex \<lparr>r = 265 / 2, g = 5, b = 5\<rparr> = ''#850505''"
    "rgbToHex \<lparr>r = 0, g = 0, b = 255\<rparr> = ''#0000FF''"
    by code_simp+
  have d: "4 dvd length ?data" by code_simp
  have l: "\<not> length (samplePixels ?data [] {}) \<le> 2" by code_simp
  have k: "kMeans (\<lambda>xs. xs) (samplePixels ?data [] {}) 2 100
      = Inr [\<lparr>r = 265 / 2, g = 5, b = 5\<rparr>, \<lparr>r = 0, g = 0, b = 255\<rparr>]"
    by code_simp
  have p: "mset ((\<lambda>xs. xs) (samplePixels ?data [] {})) = mset (samplePixels ?data [] {})"
    by simp
  from hex_round_trip [of ?c ?data "\<lambda>xs. xs" 2] h d p l
  show ?thesis unfolding k by (auto simp: m x)
qed

text \<open>
  Claim C10. A palette size of zero. When the image has at least one sample and
  \<open>colorCount\<close> is 0, the small-palette branch is not taken, \<open>kMeans\<close> starts with no
  centroids and no earlier centroids, the convergence test holds at once, no iteration is
  run, and \<open>extractColors\<close> returns the empty list, not an error.
\<close>

theorem zero_count_resolves_empty:
  "4 dvd length data \<and> samplePixels data [] {} \<noteq> [] \<longrightarrow>
     \<not> length (samplePixels data [] {}) \<le> 0
     \<and> centroids (init_state (shuffle (samplePixels data [] {})) 0) = []
     \<and> hasConverged (previousCentroids (init_state (shuffle (samplePixels data [] {})) 0))
         (centroids (init_state (shuffle (samplePixels data [] {})) 0))
     \<and> kMeans_run shuffle (samplePixels data [] {}) 0 100
         = Inr (init_state (shuffle (samplePixels data [] {})) 0)
     \<and> iterations (init_state (shuffle (samplePixels data [] {})) 0) = 0
     \<and> kMeans shuffle (samplePixels data [] {}) 0 100 = Inr []
     \<and> extractColors shuffle data 0 = Inr []"
proof (intro impI, elim conjE)
  let ?px = "samplePixels data [] {}"
  let ?s0 = "init_state (shuffle ?px) 0"
  assume ne: "?px \<noteq> []"
  have c: "centroids ?s0 = []" and p: "previousCentroids ?s0 = []" and i: "iterations ?s0 = 0"
    by (simp_all add: init_state_def)
  have conv: "hasConverged (previousCentroids ?s0) (centroids ?s0)"
    by (simp add: c p hasConverged_Nil)
  from kMeans_loop_converged [OF conv, of "shuffle ?px" 0 100]
  have run: "kMeans_run shuffle ?px 0 100 = Inr ?s0"
    by (simp add: kMeans_run_def)
  then have km: "kMeans shuffle ?px 0 100 = Inr []"
    by (simp add: kMeans_def c)
  from ne km have ex: "extractColors shuffle data 0 = Inr []"
    by (simp add: extractColors_def)
  from ne c conv run i km ex
  show "\<not> length ?px \<le> 0 \<and> centroids ?s0 = []
     \<and> hasConverged (previousCentroids ?s0) (centroids ?s0)
     \<and> kMeans_run shuffle ?px 0 100 = Inr ?s0
     \<and> iterations ?s0 = 0
     \<and> kMeans shuffle ?px 0 100 = Inr []
     \<and> extractColors shuffle data 0 = Inr []"
    by simp
qed

theorem zero_count_resolves_empty_witness:
  "4 dvd length [9, 9, 9, 255, 7, 7, 7, 254, 9, 9, 9, 255, 1, 2, 3, 255 :: byte]
   \<and> samplePixels [9, 9, 9, 255, 7, 7, 7, 254, 9, 9, 9, 255, 1, 2, 3, 255] [] {}
       = [toRGB 9 9 9, toRGB 1 2 3]
   \<and> [toRGB 9 9 9, toRGB 1 2 3] \<noteq> []
   \<and> extractColors rev [9, 9, 9, 255, 7, 7, 7, 254, 9, 9, 9, 255, 1, 2, 3, 255] 0 = Inr []"
proof -
  let ?d1 = "[9, 9, 9, 255, 7, 7, 7, 254, 9, 9, 9, 255, 1, 2, 3, 255 :: byte]"
  have d: "4 dvd length ?d1" by code_simp
  have s: "samplePixels ?d1 [] {} = [toRGB 9 9 9, toRGB 1 2 3]" by code_simp
  from zero_count_resolves_empty [of ?d1 rev] d s show ?thesis by simp
qed

end
